theory Spec2Isabelle
  imports Complex_Main "HOL-Library.DAList"
begin

section \<open>The collaborative drawing server (server.js)\<close>

text \<open>
  The server keeps two module-level variables, \<^verbatim>\<open>users\<close> (a JavaScript \<^verbatim>\<open>Map\<close>
  from socket id to user object) and \<^verbatim>\<open>drawingHistory\<close> (an array of commands), and
  registers one handler per event name on every socket that connects. Each handler runs
  to completion, so a handler is a function from the state before to the state after,
  together with the messages it emits, in the order of the \<^verbatim>\<open>emit\<close> calls.
\<close>

subsection \<open>Values\<close>

text \<open>
  A socket id is a string. The fields of an event payload are forwarded and stored, never
  computed with, so a small type of JavaScript values is enough for them; a field that
  the client left out reads as \<^verbatim>\<open>undefined\<close>.
\<close>

type_synonym sid = string

datatype jsval = JUndefined | JNull | JBool bool | JNum real | JStr string

text \<open>
  Reading a property of \<^verbatim>\<open>undefined\<close> throws a \<^verbatim>\<open>TypeError\<close>; the error keeps the
  name of the property that was being read.
\<close>

datatype error = TypeError string

text \<open>The user object stored by the connection handler (lines 28 to 34).\<close>

record user =
  user_id :: sid
  color :: string
  username :: string
  cursorX :: jsval
  cursorY :: jsval

text \<open>
  The two command objects, built by the draw handler (lines 44 to 54) and by the erase
  handler (lines 65 to 72). The field \<^verbatim>\<open>type\<close> is the constructor; \<^verbatim>\<open>userId\<close> is a
  field of both.
\<close>

datatype command =
  DrawCommand (userId: sid) (userColor: string)
    (cmd_x1: jsval) (cmd_y1: jsval) (cmd_x2: jsval) (cmd_y2: jsval)
    (strokeWidth: jsval) (timestamp: int)
| EraseCommand (userId: sid)
    (cmd_x: jsval) (cmd_y: jsval) (radius: jsval) (timestamp: int)

text \<open>The payloads that the clients send with draw, erase and cursorMove.\<close>

record draw_data =
  data_x1 :: jsval
  data_y1 :: jsval
  data_x2 :: jsval
  data_y2 :: jsval
  data_strokeWidth :: jsval

record erase_data =
  erase_x :: jsval
  erase_y :: jsval
  erase_radius :: jsval

record cursor_data =
  cursor_x :: jsval
  cursor_y :: jsval

subsection \<open>The state\<close>

text \<open>
  A JavaScript \<^verbatim>\<open>Map\<close> holds one entry per key and iterates in insertion order:
  \<^verbatim>\<open>set\<close> on a key that is present replaces the value in place, on a new key it
  appends; \<^verbatim>\<open>delete\<close> removes the entry. That is the type of association lists with
  distinct keys, with \<^const>\<open>DAList.update\<close>, \<^const>\<open>DAList.delete\<close> and
  \<^const>\<open>DAList.lookup\<close>.
\<close>

record state =
  users :: "(sid, user) alist"
  drawingHistory :: "command list"

definition users_size :: "state \<Rightarrow> nat" where
  "users_size s = length (DAList.impl_of (users s))"

definition users_values :: "state \<Rightarrow> user list" where
  "users_values s = map snd (DAList.impl_of (users s))"

definition users_keys :: "state \<Rightarrow> sid list" where
  "users_keys s = map fst (DAList.impl_of (users s))"

definition initial_state :: state where
  "initial_state = \<lparr>users = DAList.empty, drawingHistory = []\<rparr>"

subsection \<open>Messages and their recipients\<close>

text \<open>The user list entries built by \<^verbatim>\<open>broadcastUserList\<close> (lines 149 to 153).\<close>

record user_entry =
  entry_id :: sid
  entry_username :: string
  entry_color :: string

datatype message =
  LoadDrawingHistory "command list"
| DrawMsg command
| EraseMsg command
| CursorUpdate sid string jsval jsval string
| UndoAction sid "command list"
| CanvasCleared
| CursorRemoved sid
| UserListUpdate "user_entry list"

text \<open>
  The three ways of sending in the source: \<^verbatim>\<open>socket.emit\<close> (to that socket),
  \<^verbatim>\<open>socket.broadcast.emit\<close> (to every connected socket but that one) and
  \<^verbatim>\<open>io.emit\<close> (to every connected socket). Which sockets are connected is the
  transport's knowledge, so \<open>receives\<close> takes that set as a parameter.
\<close>

datatype target = ToSocket sid | BroadcastFrom sid | ToAll

type_synonym emission = "target \<times> message"

fun receives :: "sid set \<Rightarrow> target \<Rightarrow> sid \<Rightarrow> bool" where
  "receives conns (ToSocket k) c = (c = k)"
| "receives conns (BroadcastFrom k) c = (c \<in> conns \<and> c \<noteq> k)"
| "receives conns ToAll c = (c \<in> conns)"

text \<open>The messages that reach connection \<open>c\<close>, in the order they were emitted.\<close>

definition inbox :: "sid set \<Rightarrow> emission list \<Rightarrow> sid \<Rightarrow> message list" where
  "inbox conns out c = map snd (filter (\<lambda>e. receives conns (fst e) c) out)"

subsection \<open>Helper functions (lines 139 to 167)\<close>

definition colors :: "string list" where
  "colors =
    [''#FF6B6B'', ''#4ECDC4'', ''#45B7D1'', ''#FFA07A'',
     ''#98D8C8'', ''#F7DC6F'', ''#BB8FCE'', ''#85C1E2'',
     ''#F06292'', ''#AB47BC'', ''#7E57C2'', ''#5C6BC0'']"

text \<open>
  \<^verbatim>\<open>colors[users.size % colors.length]\<close>: the index is below the length of the
  array, so the read is in range.
\<close>

definition generateColor :: "state \<Rightarrow> string" where
  "generateColor s = colors ! (users_size s mod length colors)"

text \<open>
  The template literal \<^verbatim>\<open>`User${users.size + 1}`\<close> writes the number in decimal
  (the size of a map stays far below the magnitude at which JavaScript changes to the
  exponent notation).
\<close>

definition digit_char :: "nat \<Rightarrow> char" where
  "digit_char d = ''0123456789'' ! d"

function decimal :: "nat \<Rightarrow> string" where
  "decimal n = (if n < 10 then [digit_char n] else decimal (n div 10) @ [digit_char (n mod 10)])"
  by pat_completeness auto
termination
  by (relation "measure (\<lambda>n. n)") auto

declare decimal.simps [simp del]

text \<open>
  \<^verbatim>\<open>broadcastUserList\<close>: \<open>userList\<close> is its local constant of that name, built from
  the values of the map in iteration order.
\<close>

definition userList :: "state \<Rightarrow> user_entry list" where
  "userList s =
     map (\<lambda>u. \<lparr>entry_id = user_id u, entry_username = username u, entry_color = color u\<rparr>)
       (users_values s)"

definition broadcastUserList :: "state \<Rightarrow> emission list" where
  "broadcastUserList s = [(ToAll, UserListUpdate (userList s))]"

text \<open>
  The loop of \<^verbatim>\<open>findLastUserAction\<close>, with the loop variable \<open>i\<close> as its argument.
  It starts at \<open>length - 1\<close> and only decreases while \<open>i \<ge> 0\<close>, so every read
  \<open>h ! nat i\<close> is in range. The result \<open>-1\<close> is the source's "not found".
\<close>

function findLastUserAction_loop :: "command list \<Rightarrow> sid \<Rightarrow> int \<Rightarrow> int" where
  "findLastUserAction_loop h uid i =
     (if i \<ge> 0 then
        (if userId (h ! nat i) = uid then i
         else findLastUserAction_loop h uid (i - 1))
      else -1)"
  by pat_completeness auto
termination
  by (relation "measure (\<lambda>(h, uid, i). nat (i + 1))") auto

declare findLastUserAction_loop.simps [simp del]

definition findLastUserAction :: "state \<Rightarrow> sid \<Rightarrow> int" where
  "findLastUserAction s uid =
     findLastUserAction_loop (drawingHistory s) uid (int (length (drawingHistory s)) - 1)"

text \<open>
  \<^verbatim>\<open>array.splice(start, 1)\<close>: a negative \<open>start\<close> counts from the end, and the
  start is clamped to the array; the element there is removed and the later ones move
  one place to the left, and a start at the end removes nothing. The undo handler
  calls it only with an index that is not \<open>-1\<close>.
\<close>

definition splice1 :: "int \<Rightarrow> 'a list \<Rightarrow> 'a list" where
  "splice1 start xs =
     (let len = int (length xs);
          actualStart = (if start < 0 then max (len + start) 0 else min start len)
      in take (nat actualStart) xs @ drop (nat actualStart + 1) xs)"

subsection \<open>The handlers (lines 21 to 135)\<close>

text \<open>
  Every handler takes the id of its socket. A handler that reads a property of
  \<^verbatim>\<open>undefined\<close> throws a \<^verbatim>\<open>TypeError\<close>; in each of them that happens before the first
  assignment to the state and before the first \<^verbatim>\<open>emit\<close>, so the result is either the
  error or the new state with the emitted messages. A payload is \<open>None\<close> when the client
  sent the event without one (or with \<^verbatim>\<open>null\<close>). The calls to \<^verbatim>\<open>console.log\<close> are
  left out. The argument \<open>now\<close> of draw and erase is the value of \<^verbatim>\<open>Date.now()\<close>.
\<close>

definition on_connection :: "sid \<Rightarrow> state \<Rightarrow> state \<times> emission list" where
  "on_connection k s =
     (let userColor = generateColor s;
          uname = ''User'' @ decimal (users_size s + 1);
          s1 = s\<lparr>users := DAList.update k
                  \<lparr>user_id = k, color = userColor, username = uname,
                   cursorX = JNum 0, cursorY = JNum 0\<rparr> (users s)\<rparr>
      in (s1, [(ToSocket k, LoadDrawingHistory (drawingHistory s1))] @ broadcastUserList s1))"

definition on_draw :: "sid \<Rightarrow> draw_data option \<Rightarrow> int \<Rightarrow> state \<Rightarrow> error + state \<times> emission list" where
  "on_draw k data now s =
     (case DAList.lookup (users s) k of
        None \<Rightarrow> Inl (TypeError ''color'')
      | Some u \<Rightarrow>
          (case data of
             None \<Rightarrow> Inl (TypeError ''x1'')
           | Some d \<Rightarrow>
               (let command = DrawCommand k (color u) (data_x1 d) (data_y1 d) (data_x2 d)
                                (data_y2 d) (data_strokeWidth d) now
                in Inr (s\<lparr>drawingHistory := drawingHistory s @ [command]\<rparr>,
                        [(BroadcastFrom k, DrawMsg command)]))))"

definition on_erase :: "sid \<Rightarrow> erase_data option \<Rightarrow> int \<Rightarrow> state \<Rightarrow> error + state \<times> emission list" where
  "on_erase k data now s =
     (case data of
        None \<Rightarrow> Inl (TypeError ''x'')
      | Some d \<Rightarrow>
          (let command = EraseCommand k (erase_x d) (erase_y d) (erase_radius d) now
           in Inr (s\<lparr>drawingHistory := drawingHistory s @ [command]\<rparr>,
                   [(BroadcastFrom k, EraseMsg command)])))"

definition on_cursorMove :: "sid \<Rightarrow> cursor_data option \<Rightarrow> state \<Rightarrow> error + state \<times> emission list" where
  "on_cursorMove k data s =
     (case DAList.lookup (users s) k of
        None \<Rightarrow> Inr (s, [])
      | Some u \<Rightarrow>
          (case data of
             None \<Rightarrow> Inl (TypeError ''x'')
           | Some d \<Rightarrow>
               Inr (s\<lparr>users := DAList.update k (u\<lparr>cursorX := cursor_x d, cursorY := cursor_y d\<rparr>)
                                 (users s)\<rparr>,
                    [(BroadcastFrom k,
                      CursorUpdate k (username u) (cursor_x d) (cursor_y d) (color u))])))"

definition on_undo :: "sid \<Rightarrow> state \<Rightarrow> state \<times> emission list" where
  "on_undo k s =
     (let lastUserActionIndex = findLastUserAction s k
      in if lastUserActionIndex \<noteq> -1 then
           (let s1 = s\<lparr>drawingHistory := splice1 lastUserActionIndex (drawingHistory s)\<rparr>
            in (s1, [(ToAll, UndoAction k (drawingHistory s1))]))
         else (s, []))"

definition on_redo :: "sid \<Rightarrow> state \<Rightarrow> state \<times> emission list" where
  "on_redo k s = (s, [])"

definition on_clearCanvas :: "sid \<Rightarrow> state \<Rightarrow> state \<times> emission list" where
  "on_clearCanvas k s = (s\<lparr>drawingHistory := []\<rparr>, [(ToAll, CanvasCleared)])"

definition on_disconnect :: "sid \<Rightarrow> state \<Rightarrow> state \<times> emission list" where
  "on_disconnect k s =
     (let s1 = s\<lparr>users := DAList.delete k (users s)\<rparr>
      in (s1, [(ToAll, CursorRemoved k)] @ broadcastUserList s1))"

text \<open>The events of a socket, and the handler that each one runs.\<close>

datatype event =
  Connection
| Draw "draw_data option" int
| Erase "erase_data option" int
| CursorMove "cursor_data option"
| Undo
| Redo
| ClearCanvas
| Disconnect

fun handle :: "sid \<Rightarrow> event \<Rightarrow> state \<Rightarrow> error + state \<times> emission list" where
  "handle k Connection s = Inr (on_connection k s)"
| "handle k (Draw data now) s = on_draw k data now s"
| "handle k (Erase data now) s = on_erase k data now s"
| "handle k (CursorMove data) s = on_cursorMove k data s"
| "handle k Undo s = Inr (on_undo k s)"
| "handle k Redo s = Inr (on_redo k s)"
| "handle k ClearCanvas s = Inr (on_clearCanvas k s)"
| "handle k Disconnect s = Inr (on_disconnect k s)"

subsection \<open>The server and its sockets\<close>

text \<open>
  The handlers of a socket are registered inside the connection callback (lines 43 to
  134), and the transport fires the events of a socket only while it is connected: the
  connection event once, for a socket that is not connected yet, every other event
  between that and the disconnect event of the same socket. \<open>live\<close> is the set of the
  sockets that are connected. An exception that leaves a handler is caught nowhere in
  the source and ends the process, so a run goes on only while no handler throws:
  \<open>None\<close> is a sequence of events that the transport cannot deliver or that the
  server does not survive.
\<close>

record world =
  session :: state
  live :: "sid set"

definition initial_world :: world where
  "initial_world = \<lparr>session = initial_state, live = {}\<rparr>"

fun deliverable :: "world \<Rightarrow> sid \<Rightarrow> event \<Rightarrow> bool" where
  "deliverable w k Connection = (k \<notin> live w)"
| "deliverable w k ev = (k \<in> live w)"

fun live_after :: "sid \<Rightarrow> event \<Rightarrow> sid set \<Rightarrow> sid set" where
  "live_after k Connection L = insert k L"
| "live_after k Disconnect L = L - {k}"
| "live_after k ev L = L"

definition world_step :: "world \<Rightarrow> sid \<times> event \<Rightarrow> world option" where
  "world_step w e =
     (if deliverable w (fst e) (snd e) then
        (case handle (fst e) (snd e) (session w) of
           Inl err \<Rightarrow> None
         | Inr r \<Rightarrow> Some \<lparr>session = fst r, live = live_after (fst e) (snd e) (live w)\<rparr>)
      else None)"

fun run_world :: "world \<Rightarrow> (sid \<times> event) list \<Rightarrow> world option" where
  "run_world w [] = Some w"
| "run_world w (e # es) =
     (case world_step w e of None \<Rightarrow> None | Some w' \<Rightarrow> run_world w' es)"

subsection \<open>Notions used to state the properties\<close>

text \<open>The number that a string of decimal digits denotes, read from the left.\<close>

definition digit_value :: "char \<Rightarrow> nat" where
  "digit_value ch = of_char ch - 48"

definition decimal_value :: "string \<Rightarrow> nat" where
  "decimal_value ds = foldl (\<lambda>acc ch. 10 * acc + digit_value ch) 0 ds"

text \<open>Every user object of the registry is stored under its own \<open>id\<close>.\<close>

definition registry_ids_ok :: "state \<Rightarrow> bool" where
  "registry_ids_ok s = list_all (\<lambda>p. user_id (snd p) = fst p) (DAList.impl_of (users s))"

text \<open>The events that the handlers of draw, erase, undo and clearCanvas serve.\<close>

fun log_event :: "event \<Rightarrow> bool" where
  "log_event (Draw data now) = True"
| "log_event (Erase data now) = True"
| "log_event Undo = True"
| "log_event ClearCanvas = True"
| "log_event ev = False"

text \<open>The events of drawing and erasing, the ones that append to the log.\<close>

fun draw_or_erase :: "event \<Rightarrow> bool" where
  "draw_or_erase (Draw data now) = True"
| "draw_or_erase (Erase data now) = True"
| "draw_or_erase ev = False"

text \<open>
  The command that a draw or an erase event stands for in the data model of the
  specification: a draw command carries the sender, the colour that the registry has for
  the sender, the five fields of the payload and the server's timestamp; an erase
  command carries the sender, the three fields of the payload and the timestamp.
\<close>

fun command_of_event :: "(sid, user) alist \<Rightarrow> sid \<times> event \<Rightarrow> command list" where
  "command_of_event us (k, Draw (Some d) now) =
     (case DAList.lookup us k of
        None \<Rightarrow> []
      | Some u \<Rightarrow> [DrawCommand k (color u) (data_x1 d) (data_y1 d) (data_x2 d) (data_y2 d)
                   (data_strokeWidth d) now])"
| "command_of_event us (k, Erase (Some d) now) =
     [EraseCommand k (erase_x d) (erase_y d) (erase_radius d) now]"
| "command_of_event us e = []"

text \<open>
  No socket id comes back: the connection events of the sequence have different ids, as
  the data model of the specification has it for the identity of a connection.
\<close>

definition no_id_reuse :: "(sid \<times> event) list \<Rightarrow> bool" where
  "no_id_reuse evs = distinct (map fst (filter (\<lambda>e. snd e = Connection) evs))"

text \<open>The events that add a socket to the registry or take it out.\<close>

fun membership_event :: "event \<Rightarrow> bool" where
  "membership_event Connection = True"
| "membership_event Disconnect = True"
| "membership_event ev = False"

section \<open>Properties\<close>

subsection \<open>Undo\<close>

text \<open>
  The loop reads only at indices up to \<open>i\<close>, so what follows them in the array does
  not matter; it stops at the first entry of the user that it meets, walking down.
\<close>

lemma loop_prefix:
  "i < int (length xs) \<Longrightarrow>
   findLastUserAction_loop (xs @ ys) uid i = findLastUserAction_loop xs uid i"
proof (induction xs uid i rule: findLastUserAction_loop.induct)
  case (1 h uid i)
  show ?case
  proof (cases "i \<ge> 0")
    case True
    then have "nat i < length h"
      using "1.prems" by linarith
    then have nth: "(h @ ys) ! nat i = h ! nat i"
      by (simp add: nth_append)
    show ?thesis
    proof (cases "userId (h ! nat i) = uid")
      case True
      with \<open>i \<ge> 0\<close> nth show ?thesis
        by (simp add: findLastUserAction_loop.simps [of _ _ i])
    next
      case False
      with \<open>i \<ge> 0\<close> have "findLastUserAction_loop (h @ ys) uid (i - 1) = findLastUserAction_loop h uid (i - 1)"
        using "1.IH" "1.prems" by simp
      with False \<open>i \<ge> 0\<close> nth show ?thesis
        by (simp add: findLastUserAction_loop.simps [of _ _ i])
    qed
  next
    case False
    then show ?thesis
      by (simp add: findLastUserAction_loop.simps [of _ _ i])
  qed
qed

lemma loop_hit:
  "userId c = uid \<Longrightarrow>
   findLastUserAction_loop (pre @ [c]) uid (int (length pre)) = int (length pre)"
  by (simp add: findLastUserAction_loop.simps [of _ _ "int (length pre)"])

lemma loop_skip:
  "userId x \<noteq> uid \<Longrightarrow>
   findLastUserAction_loop (xs @ [x]) uid (int (length xs)) =
   findLastUserAction_loop xs uid (int (length xs) - 1)"
  by (simp add: findLastUserAction_loop.simps [of _ _ "int (length xs)"] loop_prefix)

lemma findLast_found:
  "userId c = uid \<Longrightarrow> \<forall>c' \<in> set post. userId c' \<noteq> uid \<Longrightarrow>
   findLastUserAction_loop (pre @ c # post) uid (int (length (pre @ c # post)) - 1) = int (length pre)"
proof (induction post rule: rev_induct)
  case Nil
  then show ?case using loop_hit [of c uid pre] by simp
next
  case (snoc x post)
  have "findLastUserAction_loop ((pre @ c # post) @ [x]) uid (int (length (pre @ c # post))) =
        findLastUserAction_loop (pre @ c # post) uid (int (length (pre @ c # post)) - 1)"
    using snoc.prems by (intro loop_skip) simp
  then show ?case using snoc by simp
qed

lemma findLast_none:
  "\<forall>c \<in> set h. userId c \<noteq> uid \<Longrightarrow>
   findLastUserAction_loop h uid (int (length h) - 1) = -1"
proof (induction h rule: rev_induct)
  case Nil
  then show ?case by (simp add: findLastUserAction_loop.simps [of _ _ "-1"])
next
  case (snoc x h)
  then show ?case using loop_skip [of x uid h] by simp
qed

lemma findLastUserAction_found:
  assumes "drawingHistory s = pre @ c # post" and "userId c = k"
    and "\<forall>c' \<in> set post. userId c' \<noteq> k"
  shows "findLastUserAction s k = int (length pre)"
  using assms findLast_found [of c k post pre] by (simp add: findLastUserAction_def)

lemma findLastUserAction_none:
  assumes "\<forall>c' \<in> set (drawingHistory s). userId c' \<noteq> k"
  shows "findLastUserAction s k = -1"
  using assms findLast_none [of "drawingHistory s" k] by (simp add: findLastUserAction_def)

lemma on_undo_found:
  assumes "drawingHistory s = pre @ c # post" and "userId c = k"
    and "\<forall>c' \<in> set post. userId c' \<noteq> k"
  shows "on_undo k s = (s\<lparr>drawingHistory := pre @ post\<rparr>, [(ToAll, UndoAction k (pre @ post))])"
proof -
  have "splice1 (int (length pre)) (pre @ c # post) = pre @ post"
    by (simp add: splice1_def Let_def)
  with assms findLastUserAction_found [OF assms] show ?thesis
    by (simp add: on_undo_def Let_def)
qed

lemma on_undo_none:
  assumes "\<forall>c' \<in> set (drawingHistory s). userId c' \<noteq> k"
  shows "on_undo k s = (s, [])"
  using findLastUserAction_none [OF assms] by (simp add: on_undo_def)

lemma last_entry_split:
  assumes "\<exists>c' \<in> set h. userId c' = k"
  shows "\<exists>pre c post. h = pre @ c # post \<and> userId c = k \<and> (\<forall>d \<in> set post. userId d \<noteq> k)"
  using assms split_list_last_prop [of h "\<lambda>c'. userId c' = k"] by blast

text \<open>
  C1. Undo removes exactly one entry of the history log, the last one (highest index)
  whose \<open>userId\<close> is the requester's socket id, whether it is a draw or an erase
  command: when the log is \<open>pre @ c # post\<close> with \<open>c\<close> the requester's and no entry
  of \<open>post\<close> the requester's, the log becomes \<open>pre @ post\<close> and undoAction, carrying
  the remaining log, is emitted to all. When no entry is the requester's, the state is
  the same and nothing is emitted. Every log is in one of the two cases.
\<close>

theorem undo_removes_last_entry_of_requester:
  "(drawingHistory s = pre @ c # post \<and> userId c = k \<and> (\<forall>c' \<in> set post. userId c' \<noteq> k) \<longrightarrow>
      findLastUserAction s k = int (length pre) \<and>
      on_undo k s = (s\<lparr>drawingHistory := pre @ post\<rparr>, [(ToAll, UndoAction k (pre @ post))])) \<and>
   ((\<forall>c' \<in> set (drawingHistory s). userId c' \<noteq> k) \<longrightarrow>
      findLastUserAction s k = -1 \<and> on_undo k s = (s, [])) \<and>
   ((\<exists>c' \<in> set (drawingHistory s). userId c' = k) \<longrightarrow>
      (\<exists>pre' c' post'. drawingHistory s = pre' @ c' # post' \<and> userId c' = k \<and>
         (\<forall>d \<in> set post'. userId d \<noteq> k)))"
proof (intro conjI impI)
  assume "drawingHistory s = pre @ c # post \<and> userId c = k \<and> (\<forall>c' \<in> set post. userId c' \<noteq> k)"
  then have a: "drawingHistory s = pre @ c # post" "userId c = k" "\<forall>c' \<in> set post. userId c' \<noteq> k"
    by blast+
  show "findLastUserAction s k = int (length pre)"
    by (rule findLastUserAction_found [OF a])
  show "on_undo k s = (s\<lparr>drawingHistory := pre @ post\<rparr>, [(ToAll, UndoAction k (pre @ post))])"
    by (rule on_undo_found [OF a])
next
  assume b: "\<forall>c' \<in> set (drawingHistory s). userId c' \<noteq> k"
  then show "findLastUserAction s k = -1"
    by (rule findLastUserAction_none)
  from b show "on_undo k s = (s, [])"
    by (rule on_undo_none)
next
  assume "\<exists>c' \<in> set (drawingHistory s). userId c' = k"
  then show "\<exists>pre' c' post'. drawingHistory s = pre' @ c' # post' \<and> userId c' = k \<and>
         (\<forall>d \<in> set post'. userId d \<noteq> k)"
    by (rule last_entry_split)
qed

theorem undo_removes_last_entry_of_requester_witness:
  "on_undo ''A''
     \<lparr>users = DAList.empty,
      drawingHistory =
        [DrawCommand ''A'' ''#FF6B6B'' (JNum 1) (JNum 2) (JNum 3) (JNum 4) (JNum 5) 100,
         DrawCommand ''B'' ''#4ECDC4'' (JNum 0) (JNum 0) (JNum 9) (JNum 9) (JNum 2) 101,
         EraseCommand ''A'' (JNum 7) (JNum 8) (JNum 10) 102,
         EraseCommand ''B'' (JNum 1) (JNum 1) (JNum 10) 103]\<rparr> =
   (\<lparr>users = DAList.empty,
      drawingHistory =
        [DrawCommand ''A'' ''#FF6B6B'' (JNum 1) (JNum 2) (JNum 3) (JNum 4) (JNum 5) 100,
         DrawCommand ''B'' ''#4ECDC4'' (JNum 0) (JNum 0) (JNum 9) (JNum 9) (JNum 2) 101,
         EraseCommand ''B'' (JNum 1) (JNum 1) (JNum 10) 103]\<rparr>,
    [(ToAll, UndoAction ''A''
        [DrawCommand ''A'' ''#FF6B6B'' (JNum 1) (JNum 2) (JNum 3) (JNum 4) (JNum 5) 100,
         DrawCommand ''B'' ''#4ECDC4'' (JNum 0) (JNum 0) (JNum 9) (JNum 9) (JNum 2) 101,
         EraseCommand ''B'' (JNum 1) (JNum 1) (JNum 10) 103])]) \<and>
   on_undo ''C''
     \<lparr>users = DAList.empty,
      drawingHistory =
        [DrawCommand ''A'' ''#FF6B6B'' (JNum 1) (JNum 2) (JNum 3) (JNum 4) (JNum 5) 100,
         EraseCommand ''B'' (JNum 1) (JNum 1) (JNum 10) 103]\<rparr> =
   (\<lparr>users = DAList.empty,
      drawingHistory =
        [DrawCommand ''A'' ''#FF6B6B'' (JNum 1) (JNum 2) (JNum 3) (JNum 4) (JNum 5) 100,
         EraseCommand ''B'' (JNum 1) (JNum 1) (JNum 10) 103]\<rparr>, [])"
  using undo_removes_last_entry_of_requester
          [of "\<lparr>users = DAList.empty,
      drawingHistory =
        [DrawCommand ''A'' ''#FF6B6B'' (JNum 1) (JNum 2) (JNum 3) (JNum 4) (JNum 5) 100,
         DrawCommand ''B'' ''#4ECDC4'' (JNum 0) (JNum 0) (JNum 9) (JNum 9) (JNum 2) 101,
         EraseCommand ''A'' (JNum 7) (JNum 8) (JNum 10) 102,
         EraseCommand ''B'' (JNum 1) (JNum 1) (JNum 10) 103]\<rparr>"
              "[DrawCommand ''A'' ''#FF6B6B'' (JNum 1) (JNum 2) (JNum 3) (JNum 4) (JNum 5) 100,
                DrawCommand ''B'' ''#4ECDC4'' (JNum 0) (JNum 0) (JNum 9) (JNum 9) (JNum 2) 101]"
              "EraseCommand ''A'' (JNum 7) (JNum 8) (JNum 10) 102"
              "[EraseCommand ''B'' (JNum 1) (JNum 1) (JNum 10) 103]" "''A''"]
        undo_removes_last_entry_of_requester
          [of "\<lparr>users = DAList.empty,
      drawingHistory =
        [DrawCommand ''A'' ''#FF6B6B'' (JNum 1) (JNum 2) (JNum 3) (JNum 4) (JNum 5) 100,
         EraseCommand ''B'' (JNum 1) (JNum 1) (JNum 10) 103]\<rparr>" "[]" _ "[]" "''C''"]
  by simp

subsection \<open>Clearing the canvas\<close>

text \<open>
  C5. Whatever the state, the clearCanvas handler leaves the history log empty, and
  handling clearCanvas a second time gives the same state as handling it once (the
  registry is not touched either time); each time the canvasCleared signal is emitted.
\<close>

theorem clearCanvas_empties_and_is_idempotent:
  "drawingHistory (fst (on_clearCanvas k s)) = [] \<and>
   fst (on_clearCanvas k' (fst (on_clearCanvas k s))) = fst (on_clearCanvas k s) \<and>
   users (fst (on_clearCanvas k s)) = users s \<and>
   snd (on_clearCanvas k s) = [(ToAll, CanvasCleared)]"
  by (simp add: on_clearCanvas_def)

subsection \<open>Connecting\<close>

lemma update_fresh:
  "map_of xs k = None \<Longrightarrow> AList.update k v xs = xs @ [(k, v)]"
  by (induction xs) (auto split: if_splits)

lemma digit_value_digit_char: "d < 10 \<Longrightarrow> digit_value (digit_char d) = d"
proof -
  assume "d < 10"
  then have "d \<in> {0, 1, 2, 3, 4, 5, 6, 7, 8, 9}"
    by auto
  then show ?thesis
    by (auto simp: digit_value_def digit_char_def)
qed

lemma decimal_value_snoc: "decimal_value (ds @ [ch]) = 10 * decimal_value ds + digit_value ch"
  by (simp add: decimal_value_def)

lemma decimal_value_decimal: "decimal_value (decimal n) = n"
proof (induction n rule: decimal.induct)
  case (1 n)
  show ?case
  proof (cases "n < 10")
    case True
    then show ?thesis
      by (simp add: decimal.simps [of n] decimal_value_def digit_value_digit_char)
  next
    case False
    then have "decimal_value (decimal (n div 10)) = n div 10"
      using 1 by simp
    with False show ?thesis
      by (simp add: decimal.simps [of n] decimal_value_snoc digit_value_digit_char)
  qed
qed

lemma decimal_digits: "ch \<in> set (decimal n) \<Longrightarrow> ch \<in> digit_char ` {..<10}"
proof (induction n rule: decimal.induct)
  case (1 n)
  then show ?case
    by (cases "n < 10") (auto simp: decimal.simps [of n])
qed

lemma size_update_fresh:
  "DAList.lookup m k = None \<Longrightarrow>
   DAList.impl_of (DAList.update k v m) = DAList.impl_of m @ [(k, v)]"
  by (simp add: DAList.update.rep_eq DAList.lookup.rep_eq update_fresh)

text \<open>
  C2. The record that the connection handler stores for the socket has the colour
  \<open>colors ! (size mod length colors)\<close> (an index inside the palette), the username
  "User" followed by the decimal numeral of \<open>size + 1\<close>, and the cursor at (0, 0),
  where \<open>size\<close> is the size of the registry before the insertion. For a socket id
  that is not in the registry, which is what the transport hands to the handler, the
  registry is one entry larger afterwards and the new entry comes last.
\<close>

theorem connection_registers_new_user:
  assumes "on_connection k s = (s', out)"
  shows "DAList.lookup (users s') k =
       Some \<lparr>user_id = k, color = colors ! (users_size s mod length colors),
             username = ''User'' @ decimal (users_size s + 1),
             cursorX = JNum 0, cursorY = JNum 0\<rparr> \<and>
     users_size s mod length colors < length colors \<and>
     decimal_value (decimal (users_size s + 1)) = users_size s + 1 \<and>
     (DAList.lookup (users s) k = None \<longrightarrow>
        users_size s' = users_size s + 1 \<and>
        users_keys s' = users_keys s @ [k])"
proof -
  let ?u = "\<lparr>user_id = k, color = colors ! (users_size s mod length colors),
             username = ''User'' @ decimal (users_size s + 1),
             cursorX = JNum 0, cursorY = JNum 0\<rparr>"
  have s': "users s' = DAList.update k ?u (users s)"
    using assms by (auto simp: on_connection_def Let_def generateColor_def)
  have 1: "DAList.lookup (users s') k = Some ?u"
    by (simp add: s')
  have 2: "users_size s mod length colors < length colors"
    by (simp add: colors_def)
  have 3: "decimal_value (decimal (users_size s + 1)) = users_size s + 1"
    by (rule decimal_value_decimal)
  have 4: "users_size s' = users_size s + 1 \<and> users_keys s' = users_keys s @ [k]"
    if "DAList.lookup (users s) k = None"
    using that by (simp add: s' users_size_def users_keys_def size_update_fresh)
  from 1 2 3 4 show ?thesis by blast
qed

lemma decimal_small: "n < 10 \<Longrightarrow> decimal n = [digit_char n]"
  by (simp add: decimal.simps [of n])

theorem connection_registers_new_user_witness:
  "DAList.lookup (users (fst (on_connection ''B'' (fst (on_connection ''A'' initial_state))))) ''C'' = None \<and>
   DAList.lookup
     (users (fst (on_connection ''C''
        (fst (on_connection ''B'' (fst (on_connection ''A'' initial_state))))))) ''C'' =
     Some \<lparr>user_id = ''C'', color = ''#45B7D1'', username = ''User3'',
           cursorX = JNum 0, cursorY = JNum 0\<rparr> \<and>
   users_size (fst (on_connection ''B'' (fst (on_connection ''A'' initial_state)))) = 2 \<and>
   users_size (fst (on_connection ''C''
        (fst (on_connection ''B'' (fst (on_connection ''A'' initial_state)))))) = 3"
  using connection_registers_new_user
    [of "''C''" "fst (on_connection ''B'' (fst (on_connection ''A'' initial_state)))"
        "fst (on_connection ''C''
        (fst (on_connection ''B'' (fst (on_connection ''A'' initial_state)))))"
        "snd (on_connection ''C''
        (fst (on_connection ''B'' (fst (on_connection ''A'' initial_state)))))"]
  by (simp add: on_connection_def initial_state_def Let_def users_size_def generateColor_def
      DAList.lookup_update DAList.update.rep_eq DAList.empty.rep_eq colors_def decimal_small digit_char_def)

lemma inbox_Nil: "inbox conns [] c = []"
  by (simp add: inbox_def)

lemma inbox_Cons:
  "inbox conns ((t, m) # out) c = (if receives conns t c then m # inbox conns out c else inbox conns out c)"
  by (simp add: inbox_def)

lemma on_connection_users:
  "users (fst (on_connection k s)) =
     DAList.update k
       \<lparr>user_id = k, color = generateColor s, username = ''User'' @ decimal (users_size s + 1),
        cursorX = JNum 0, cursorY = JNum 0\<rparr> (users s)"
  by (simp add: on_connection_def Let_def)

lemma on_connection_history: "drawingHistory (fst (on_connection k s)) = drawingHistory s"
  by (simp add: on_connection_def Let_def)

lemma on_connection_out:
  "snd (on_connection k s) =
     [(ToSocket k, LoadDrawingHistory (drawingHistory s)),
      (ToAll, UserListUpdate (userList (fst (on_connection k s))))]"
  by (simp add: on_connection_def Let_def broadcastUserList_def)

lemma keys_update:
  "fst ` set (DAList.impl_of (DAList.update k v m)) = insert k (fst ` set (DAList.impl_of m))"
  by (simp add: DAList.update.rep_eq dom_update)

lemma keys_delete:
  "fst ` set (DAList.impl_of (DAList.delete k m)) = fst ` set (DAList.impl_of m) - {k}"
proof -
  have "set (map fst (AList.delete k (DAList.impl_of m))) = set (map fst (DAList.impl_of m)) - {k}"
    by (simp only: delete_keys set_removeAll)
  then show ?thesis
    by (simp add: DAList.delete.rep_eq)
qed

lemma lookup_Some_in_values:
  "DAList.lookup m k = Some v \<Longrightarrow> v \<in> set (map snd (DAList.impl_of m))"
  by (auto simp: DAList.lookup.rep_eq dest!: map_of_SomeD intro: rev_image_eqI)

text \<open>The equations that evaluate the handlers and a run on concrete events.\<close>

lemmas eval_defs =
  world_step_def initial_world_def initial_state_def
  on_connection_def on_draw_def on_erase_def on_cursorMove_def on_undo_def on_redo_def
  on_clearCanvas_def on_disconnect_def broadcastUserList_def userList_def
  users_size_def users_values_def users_keys_def generateColor_def colors_def
  decimal_small digit_char_def Let_def inbox_def
  DAList.lookup_update DAList.update.rep_eq DAList.delete.rep_eq DAList.empty.rep_eq

subsection \<open>Who receives what\<close>

lemma on_draw_Inr:
  assumes "on_draw k data now s = Inr (s', out)"
  obtains u d where "DAList.lookup (users s) k = Some u" and "data = Some d"
    and "s' = s\<lparr>drawingHistory := drawingHistory s @
            [DrawCommand k (color u) (data_x1 d) (data_y1 d) (data_x2 d) (data_y2 d)
               (data_strokeWidth d) now]\<rparr>"
    and "out = [(BroadcastFrom k,
            DrawMsg (DrawCommand k (color u) (data_x1 d) (data_y1 d) (data_x2 d) (data_y2 d)
               (data_strokeWidth d) now))]"
  using assms by (auto simp: on_draw_def Let_def split: option.splits)

lemma on_erase_Inr:
  assumes "on_erase k data now s = Inr (s', out)"
  obtains d where "data = Some d"
    and "s' = s\<lparr>drawingHistory := drawingHistory s @
            [EraseCommand k (erase_x d) (erase_y d) (erase_radius d) now]\<rparr>"
    and "out = [(BroadcastFrom k,
            EraseMsg (EraseCommand k (erase_x d) (erase_y d) (erase_radius d) now))]"
  using assms by (auto simp: on_erase_def Let_def split: option.splits)

lemma on_undo_emits:
  assumes "\<exists>c' \<in> set (drawingHistory s). userId c' = k"
  shows "snd (on_undo k s) = [(ToAll, UndoAction k (drawingHistory (fst (on_undo k s))))]"
proof -
  from last_entry_split [OF assms] obtain pre c post
    where "drawingHistory s = pre @ c # post" "userId c = k" "\<forall>d \<in> set post. userId d \<noteq> k"
    by blast
  then show ?thesis
    by (simp add: on_undo_found)
qed

text \<open>
  C4. Whatever the state and the sender: the draw and the erase handler emit their
  command with \<^verbatim>\<open>socket.broadcast.emit\<close>, so the sender receives nothing and every
  other connection receives the command that was appended; the undo handler, when the
  sender has an entry in the log, and the clearCanvas handler emit with \<^verbatim>\<open>io.emit\<close>,
  so every connection, the sender among them, receives undoAction (with the remaining
  log) or canvasCleared.
\<close>

theorem draw_erase_skip_sender_undo_clear_reach_all:
  "(on_draw k data now s = Inr (s', out) \<longrightarrow>
      out = [(BroadcastFrom k, DrawMsg (last (drawingHistory s')))] \<and>
      inbox conns out k = [] \<and>
      (\<forall>c \<in> conns. c \<noteq> k \<longrightarrow> inbox conns out c = [DrawMsg (last (drawingHistory s'))])) \<and>
   (on_erase k edata now s = Inr (s', out) \<longrightarrow>
      out = [(BroadcastFrom k, EraseMsg (last (drawingHistory s')))] \<and>
      inbox conns out k = [] \<and>
      (\<forall>c \<in> conns. c \<noteq> k \<longrightarrow> inbox conns out c = [EraseMsg (last (drawingHistory s'))])) \<and>
   ((\<exists>c' \<in> set (drawingHistory s). userId c' = k) \<longrightarrow>
      (\<forall>c \<in> conns. inbox conns (snd (on_undo k s)) c =
                        [UndoAction k (drawingHistory (fst (on_undo k s)))]) \<and>
      (k \<in> conns \<longrightarrow> inbox conns (snd (on_undo k s)) k =
                        [UndoAction k (drawingHistory (fst (on_undo k s)))])) \<and>
   (\<forall>c \<in> conns. inbox conns (snd (on_clearCanvas k s)) c = [CanvasCleared]) \<and>
   (k \<in> conns \<longrightarrow> inbox conns (snd (on_clearCanvas k s)) k = [CanvasCleared])"
proof (intro conjI impI)
  assume "on_draw k data now s = Inr (s', out)"
  then obtain cmd where "out = [(BroadcastFrom k, DrawMsg cmd)]" and "last (drawingHistory s') = cmd"
    by (elim on_draw_Inr) simp
  then show "out = [(BroadcastFrom k, DrawMsg (last (drawingHistory s')))]"
    and "inbox conns out k = []"
    and "\<forall>c \<in> conns. c \<noteq> k \<longrightarrow> inbox conns out c = [DrawMsg (last (drawingHistory s'))]"
    by (simp_all add: inbox_def)
next
  assume "on_erase k edata now s = Inr (s', out)"
  then obtain cmd where "out = [(BroadcastFrom k, EraseMsg cmd)]" and "last (drawingHistory s') = cmd"
    by (elim on_erase_Inr) simp
  then show "out = [(BroadcastFrom k, EraseMsg (last (drawingHistory s')))]"
    and "inbox conns out k = []"
    and "\<forall>c \<in> conns. c \<noteq> k \<longrightarrow> inbox conns out c = [EraseMsg (last (drawingHistory s'))]"
    by (simp_all add: inbox_def)
next
  assume "\<exists>c' \<in> set (drawingHistory s). userId c' = k"
  then have e: "snd (on_undo k s) = [(ToAll, UndoAction k (drawingHistory (fst (on_undo k s))))]"
    by (rule on_undo_emits)
  show "\<forall>c \<in> conns. inbox conns (snd (on_undo k s)) c =
                        [UndoAction k (drawingHistory (fst (on_undo k s)))]"
    by (simp add: e inbox_def)
  show "inbox conns (snd (on_undo k s)) k = [UndoAction k (drawingHistory (fst (on_undo k s)))]"
    if "k \<in> conns"
    using that by (simp add: e inbox_def)
next
  show "\<forall>c \<in> conns. inbox conns (snd (on_clearCanvas k s)) c = [CanvasCleared]"
    by (simp add: on_clearCanvas_def inbox_def)
  show "inbox conns (snd (on_clearCanvas k s)) k = [CanvasCleared]" if "k \<in> conns"
    using that by (simp add: on_clearCanvas_def inbox_def)
qed

theorem draw_erase_skip_sender_undo_clear_reach_all_witness:
  "(case on_draw ''A'' (Some \<lparr>data_x1 = JNum 1, data_y1 = JNum 2, data_x2 = JNum 3, data_y2 = JNum 4,
         data_strokeWidth = JNum 5\<rparr>) 1000
      (fst (on_connection ''B'' (fst (on_connection ''A'' initial_state)))) of
      Inl e \<Rightarrow> False
    | Inr r \<Rightarrow>
        inbox {''A'', ''B''} (snd r) ''A'' = [] \<and>
        inbox {''A'', ''B''} (snd r) ''B'' = [DrawMsg (DrawCommand ''A'' ''#FF6B6B'' (JNum 1) (JNum 2) (JNum 3) (JNum 4) (JNum 5) 1000)] \<and>
        inbox {''A'', ''B''} (snd (on_undo ''A'' (fst r))) ''A'' = [UndoAction ''A'' []] \<and>
        inbox {''A'', ''B''} (snd (on_undo ''A'' (fst r))) ''B'' = [UndoAction ''A'' []] \<and>
        inbox {''A'', ''B''} (snd (on_clearCanvas ''A'' (fst r))) ''A'' = [CanvasCleared]) \<and>
   (case on_erase ''B'' (Some \<lparr>erase_x = JNum 6, erase_y = JNum 7, erase_radius = JNum 8\<rparr>) 1001
      (fst (on_connection ''B'' (fst (on_connection ''A'' initial_state)))) of
      Inl e \<Rightarrow> False
    | Inr r \<Rightarrow>
        inbox {''A'', ''B''} (snd r) ''B'' = [] \<and>
        inbox {''A'', ''B''} (snd r) ''A'' = [EraseMsg (EraseCommand ''B'' (JNum 6) (JNum 7) (JNum 8) 1001)])"
proof -
  let ?s = "(fst (on_connection ''B'' (fst (on_connection ''A'' initial_state))))"
  obtain sd od where d: "on_draw ''A'' (Some \<lparr>data_x1 = JNum 1, data_y1 = JNum 2, data_x2 = JNum 3, data_y2 = JNum 4,
         data_strokeWidth = JNum 5\<rparr>) 1000 ?s = Inr (sd, od)"
    and hd: "drawingHistory sd = [DrawCommand ''A'' ''#FF6B6B'' (JNum 1) (JNum 2) (JNum 3) (JNum 4) (JNum 5) 1000]"
    by (simp add: eval_defs)
  obtain se oe where e: "on_erase ''B'' (Some \<lparr>erase_x = JNum 6, erase_y = JNum 7, erase_radius = JNum 8\<rparr>) 1001 ?s = Inr (se, oe)"
    and he: "drawingHistory se = [EraseCommand ''B'' (JNum 6) (JNum 7) (JNum 8) 1001]"
    by (simp add: eval_defs)
  have u: "drawingHistory (fst (on_undo ''A'' sd)) = []"
    using on_undo_found [of sd "[]" "DrawCommand ''A'' ''#FF6B6B'' (JNum 1) (JNum 2) (JNum 3) (JNum 4) (JNum 5) 1000" "[]" "''A''"] by (simp add: hd)
  show ?thesis
    using draw_erase_skip_sender_undo_clear_reach_all
            [where k = "''A''" and data = "(Some \<lparr>data_x1 = JNum 1, data_y1 = JNum 2, data_x2 = JNum 3, data_y2 = JNum 4,
         data_strokeWidth = JNum 5\<rparr>)" and edata = None and now = 1000 and s = ?s
               and s' = sd and out = od and conns = "{''A'', ''B''}"]
          draw_erase_skip_sender_undo_clear_reach_all
            [where k = "''A''" and data = None and edata = None and now = 0 and s = sd
               and s' = sd and out = "[]" and conns = "{''A'', ''B''}"]
          draw_erase_skip_sender_undo_clear_reach_all
            [where k = "''B''" and data = None and edata = "(Some \<lparr>erase_x = JNum 6, erase_y = JNum 7, erase_radius = JNum 8\<rparr>)" and now = 1001 and s = ?s and s' = se and out = oe
               and conns = "{''A'', ''B''}"]
    unfolding d e by (simp add: hd he u inbox_def on_clearCanvas_def)
qed

subsection \<open>Cursor movement\<close>

lemma lookup_Some_key:
  "DAList.lookup m k = Some v \<Longrightarrow> k \<in> fst ` set (DAList.impl_of m)"
  by (auto simp: DAList.lookup.rep_eq intro: rev_image_eqI)

lemma lookup_None_key:
  "DAList.lookup m k = None \<longleftrightarrow> k \<notin> fst ` set (DAList.impl_of m)"
  by (simp add: DAList.lookup.rep_eq map_of_eq_None_iff)

lemma keys_update_present:
  "DAList.lookup m k = Some v \<Longrightarrow>
   map fst (DAList.impl_of (DAList.update k v' m)) = map fst (DAList.impl_of m)"
  using lookup_Some_key [of m k v] by (simp add: DAList.update.rep_eq update_keys)

text \<open>
  C6 as amended. A cursorMove from a socket id that is not in the registry does
  nothing, whatever its payload: the state is the same and nothing is emitted. From a
  registered socket, when the event carries a payload \<open>d\<close>, the cursor of the
  sender's record is overwritten with the coordinates of \<open>d\<close> (the other records,
  the order of the registry and the log stay as they are) and one cursorUpdate, with
  the sender's name and colour, reaches every connection but the sender.
\<close>

theorem cursorMove_unregistered_noop_registered_overwrites:
  "(DAList.lookup (users s) k = None \<longrightarrow> on_cursorMove k data s = Inr (s, [])) \<and>
   (DAList.lookup (users s) k = Some u \<longrightarrow>
      (\<exists>s' out.
         on_cursorMove k (Some d) s = Inr (s', out) \<and>
         DAList.lookup (users s') k = Some (u\<lparr>cursorX := cursor_x d, cursorY := cursor_y d\<rparr>) \<and>
         (\<forall>k'. k' \<noteq> k \<longrightarrow> DAList.lookup (users s') k' = DAList.lookup (users s) k') \<and>
         users_keys s' = users_keys s \<and>
         drawingHistory s' = drawingHistory s \<and>
         out = [(BroadcastFrom k, CursorUpdate k (username u) (cursor_x d) (cursor_y d) (color u))] \<and>
         inbox conns out k = [] \<and>
         (\<forall>c \<in> conns. c \<noteq> k \<longrightarrow>
            inbox conns out c = [CursorUpdate k (username u) (cursor_x d) (cursor_y d) (color u)])))"
proof (intro conjI impI)
  assume "DAList.lookup (users s) k = None"
  then show "on_cursorMove k data s = Inr (s, [])"
    by (simp add: on_cursorMove_def)
next
  assume u: "DAList.lookup (users s) k = Some u"
  let ?u' = "u\<lparr>cursorX := cursor_x d, cursorY := cursor_y d\<rparr>"
  let ?s' = "s\<lparr>users := DAList.update k ?u' (users s)\<rparr>"
  let ?out = "[(BroadcastFrom k, CursorUpdate k (username u) (cursor_x d) (cursor_y d) (color u))]"
  have r: "on_cursorMove k (Some d) s = Inr (?s', ?out)"
    using u by (simp add: on_cursorMove_def)
  have 1: "DAList.lookup (users ?s') k = Some ?u'"
    by simp
  have 2: "\<forall>k'. k' \<noteq> k \<longrightarrow> DAList.lookup (users ?s') k' = DAList.lookup (users s) k'"
    by simp
  have 3: "users_keys ?s' = users_keys s"
    using keys_update_present [OF u] by (simp add: users_keys_def)
  have 4: "drawingHistory ?s' = drawingHistory s"
    by simp
  have 5: "inbox conns ?out k = []"
    by (simp add: inbox_def)
  have 6: "\<forall>c \<in> conns. c \<noteq> k \<longrightarrow>
            inbox conns ?out c = [CursorUpdate k (username u) (cursor_x d) (cursor_y d) (color u)]"
    by (simp add: inbox_def)
  from r 1 2 3 4 5 6 show "\<exists>s' out.
         on_cursorMove k (Some d) s = Inr (s', out) \<and>
         DAList.lookup (users s') k = Some (u\<lparr>cursorX := cursor_x d, cursorY := cursor_y d\<rparr>) \<and>
         (\<forall>k'. k' \<noteq> k \<longrightarrow> DAList.lookup (users s') k' = DAList.lookup (users s) k') \<and>
         users_keys s' = users_keys s \<and>
         drawingHistory s' = drawingHistory s \<and>
         out = [(BroadcastFrom k, CursorUpdate k (username u) (cursor_x d) (cursor_y d) (color u))] \<and>
         inbox conns out k = [] \<and>
         (\<forall>c \<in> conns. c \<noteq> k \<longrightarrow>
            inbox conns out c = [CursorUpdate k (username u) (cursor_x d) (cursor_y d) (color u)])"
    by blast
qed

theorem cursorMove_unregistered_noop_registered_overwrites_witness:
  "on_cursorMove ''Z'' (Some \<lparr>cursor_x = JNum 5, cursor_y = JNum 7\<rparr>)
     (fst (on_connection ''B'' (fst (on_connection ''A'' initial_state)))) =
     Inr ((fst (on_connection ''B'' (fst (on_connection ''A'' initial_state)))), []) \<and>
   (case on_cursorMove ''A'' (Some \<lparr>cursor_x = JNum 5, cursor_y = JNum 7\<rparr>)
      (fst (on_connection ''B'' (fst (on_connection ''A'' initial_state)))) of
      Inl e \<Rightarrow> False
    | Inr r \<Rightarrow>
        DAList.lookup (users (fst r)) ''A'' =
          Some \<lparr>user_id = ''A'', color = ''#FF6B6B'', username = ''User1'',
                cursorX = JNum 5, cursorY = JNum 7\<rparr> \<and>
        inbox {''A'', ''B''} (snd r) ''A'' = [] \<and>
        inbox {''A'', ''B''} (snd r) ''B'' =
          [CursorUpdate ''A'' ''User1'' (JNum 5) (JNum 7) ''#FF6B6B''])"
proof -
  let ?s = "(fst (on_connection ''B'' (fst (on_connection ''A'' initial_state))))"
  have z: "DAList.lookup (users ?s) ''Z'' = None"
    and a: "DAList.lookup (users ?s) ''A'' = Some \<lparr>user_id = ''A'', color = ''#FF6B6B'', username = ''User1'', cursorX = JNum 0, cursorY = JNum 0\<rparr>"
    by (simp_all add: eval_defs)
  show ?thesis
    using cursorMove_unregistered_noop_registered_overwrites
            [where k = "''Z''" and s = ?s and data = "Some \<lparr>cursor_x = JNum 5, cursor_y = JNum 7\<rparr>" and d = "\<lparr>cursor_x = JNum 5, cursor_y = JNum 7\<rparr>"
               and u = "\<lparr>user_id = ''A'', color = ''#FF6B6B'', username = ''User1'', cursorX = JNum 0, cursorY = JNum 0\<rparr>" and conns = "{''A'', ''B''}"]
          cursorMove_unregistered_noop_registered_overwrites
            [where k = "''A''" and s = ?s and data = "Some \<lparr>cursor_x = JNum 5, cursor_y = JNum 7\<rparr>" and d = "\<lparr>cursor_x = JNum 5, cursor_y = JNum 7\<rparr>"
               and u = "\<lparr>user_id = ''A'', color = ''#FF6B6B'', username = ''User1'', cursorX = JNum 0, cursorY = JNum 0\<rparr>" and conns = "{''A'', ''B''}"]
    by (auto simp: z a)
qed

text \<open>
  C6 as stated fails: it speaks of every cursorMove event, and a registered socket can
  send one without a payload. The handler then throws on reading \<open>x\<close> of the payload
  before it assigns anything: the cursor is not overwritten, nothing is broadcast, and
  the run of the server ends there.
\<close>

theorem cursorMove_without_payload_throws:
  "DAList.lookup (users (fst (on_connection ''A'' initial_state))) ''A'' =
     Some \<lparr>user_id = ''A'', color = ''#FF6B6B'', username = ''User1'',
           cursorX = JNum 0, cursorY = JNum 0\<rparr> \<and>
   on_cursorMove ''A'' None (fst (on_connection ''A'' initial_state)) = Inl (TypeError ''x'') \<and>
   run_world initial_world [(''A'', Connection), (''A'', CursorMove None)] = None"
  by (simp add: eval_defs)

subsection \<open>Disconnecting\<close>

lemma length_delete_present:
  "distinct (map fst xs) \<Longrightarrow> k \<in> fst ` set xs \<Longrightarrow> length (AList.delete k xs) + 1 = length xs"
proof (induction xs)
  case Nil
  then show ?case by simp
next
  case (Cons p xs)
  show ?case
  proof (cases "fst p = k")
    case True
    with Cons.prems have "k \<notin> fst ` set xs"
      by auto
    then have "AList.delete k xs = xs"
      by (rule delete_id)
    with True show ?thesis
      by (cases p) simp
  next
    case False
    with Cons show ?thesis
      by (cases p) auto
  qed
qed

lemma delete_as_filter: "AList.delete k xs = filter (\<lambda>p. fst p \<noteq> k) xs"
  by (induction xs) auto

lemma userList_delete:
  assumes "registry_ids_ok s"
  shows "userList (s\<lparr>users := DAList.delete k (users s)\<rparr>) =
         filter (\<lambda>e. entry_id e \<noteq> k) (userList s)"
proof -
  let ?entry = "\<lambda>u. \<lparr>entry_id = user_id u, entry_username = username u, entry_color = color u\<rparr>"
  have "filter (\<lambda>p. fst p \<noteq> k) (DAList.impl_of (users s)) =
        filter (\<lambda>p. entry_id (?entry (snd p)) \<noteq> k) (DAList.impl_of (users s))"
    using assms by (intro filter_cong) (auto simp: registry_ids_ok_def list_all_iff)
  then show ?thesis
    by (simp add: userList_def users_values_def DAList.delete.rep_eq delete_as_filter
        filter_map comp_def)
qed

text \<open>
  C7. After the disconnect handler the registry has no entry for the socket id, every
  other entry is as before, and the registry is one entry smaller when the id was
  registered (unchanged when it was not). The history log is untouched, so the commands
  of the leaving user stay. Every connection receives cursorRemoved for the id and
  then the user list of the registry after the removal, which is the former list
  without the leaving id when every record is stored under its own id.
\<close>

theorem disconnect_removes_user_keeps_log:
  assumes "on_disconnect k s = (s', out)"
  shows "DAList.lookup (users s') k = None \<and>
     (\<forall>k'. k' \<noteq> k \<longrightarrow> DAList.lookup (users s') k' = DAList.lookup (users s) k') \<and>
     (DAList.lookup (users s) k \<noteq> None \<longrightarrow> users_size s' + 1 = users_size s) \<and>
     (DAList.lookup (users s) k = None \<longrightarrow> users s' = users s) \<and>
     drawingHistory s' = drawingHistory s \<and>
     out = [(ToAll, CursorRemoved k), (ToAll, UserListUpdate (userList s'))] \<and>
     (\<forall>c \<in> conns. inbox conns out c = [CursorRemoved k, UserListUpdate (userList s')]) \<and>
     users_keys s' = removeAll k (users_keys s) \<and>
     (registry_ids_ok s \<longrightarrow>
        userList s' = filter (\<lambda>e. entry_id e \<noteq> k) (userList s) \<and>
        k \<notin> entry_id ` set (userList s'))"
proof -
  have s': "s' = s\<lparr>users := DAList.delete k (users s)\<rparr>"
    and out: "out = [(ToAll, CursorRemoved k), (ToAll, UserListUpdate (userList s'))]"
    using assms by (auto simp: on_disconnect_def Let_def broadcastUserList_def)
  have 1: "DAList.lookup (users s') k = None"
    by (simp add: s')
  have 2: "\<forall>k'. k' \<noteq> k \<longrightarrow> DAList.lookup (users s') k' = DAList.lookup (users s) k'"
    by (simp add: s')
  have 3: "users_size s' + 1 = users_size s" if "DAList.lookup (users s) k \<noteq> None"
    using that length_delete_present [of "DAList.impl_of (users s)" k]
    by (simp add: s' users_size_def DAList.delete.rep_eq lookup_None_key)
  have 4: "users s' = users s" if "DAList.lookup (users s) k = None"
  proof -
    have "DAList.delete k (users s) = users s"
      using that by (intro alist_ext) (simp add: DAList.delete.rep_eq lookup_None_key)
    then show ?thesis
      by (simp add: s')
  qed
  have 5: "drawingHistory s' = drawingHistory s"
    by (simp add: s')
  have 6: "\<forall>c \<in> conns. inbox conns out c = [CursorRemoved k, UserListUpdate (userList s')]"
    by (simp add: out inbox_def)
  have 7: "users_keys s' = removeAll k (users_keys s)"
    by (simp add: s' users_keys_def DAList.delete.rep_eq delete_keys)
  have 8: "userList s' = filter (\<lambda>e. entry_id e \<noteq> k) (userList s) \<and>
        k \<notin> entry_id ` set (userList s')" if "registry_ids_ok s"
  proof -
    have "userList s' = filter (\<lambda>e. entry_id e \<noteq> k) (userList s)"
      unfolding s' using that by (rule userList_delete)
    then show ?thesis
      by auto
  qed
  from 1 2 3 4 5 out 6 7 8 show ?thesis
    by blast
qed

theorem disconnect_removes_user_keeps_log_witness:
  "(case run_world initial_world
      [(''A'', Connection), (''B'', Connection),
       (''A'', Draw (Some \<lparr>data_x1 = JNum 1, data_y1 = JNum 2, data_x2 = JNum 3, data_y2 = JNum 4,
                           data_strokeWidth = JNum 5\<rparr>) 1000)] of
      None \<Rightarrow> False
    | Some w \<Rightarrow>
        registry_ids_ok (session w) \<and>
        users_size (session w) = 2 \<and>
        users_size (fst (on_disconnect ''A'' (session w))) = 1 \<and>
        DAList.lookup (users (fst (on_disconnect ''A'' (session w)))) ''A'' = None \<and>
        drawingHistory (fst (on_disconnect ''A'' (session w))) =
          [DrawCommand ''A'' ''#FF6B6B'' (JNum 1) (JNum 2) (JNum 3) (JNum 4) (JNum 5) 1000] \<and>
        inbox {''B''} (snd (on_disconnect ''A'' (session w))) ''B'' =
          [CursorRemoved ''A'',
           UserListUpdate
             [\<lparr>entry_id = ''B'', entry_username = ''User2'', entry_color = ''#4ECDC4''\<rparr>]] \<and>
        users (fst (on_disconnect ''Z'' (session w))) = users (session w))"
proof -
  obtain w where w: "run_world initial_world
      [(''A'', Connection), (''B'', Connection),
       (''A'', Draw (Some \<lparr>data_x1 = JNum 1, data_y1 = JNum 2, data_x2 = JNum 3, data_y2 = JNum 4,
                           data_strokeWidth = JNum 5\<rparr>) 1000)] = Some w"
    and h: "drawingHistory (session w) = [DrawCommand ''A'' ''#FF6B6B'' (JNum 1) (JNum 2) (JNum 3) (JNum 4) (JNum 5) 1000]"
    and ok: "registry_ids_ok (session w)"
    and n: "users_size (session w) = 2"
    and a: "DAList.lookup (users (session w)) ''A'' \<noteq> None"
    and z: "DAList.lookup (users (session w)) ''Z'' = None"
    and l: "userList (session w) =
             [\<lparr>entry_id = ''A'', entry_username = ''User1'', entry_color = ''#FF6B6B''\<rparr>,
              \<lparr>entry_id = ''B'', entry_username = ''User2'', entry_color = ''#4ECDC4''\<rparr>]"
    by (simp add: eval_defs registry_ids_ok_def)
  show ?thesis
    using disconnect_removes_user_keeps_log
            [of "''A''" "session w" "fst (on_disconnect ''A'' (session w))"
                "snd (on_disconnect ''A'' (session w))" "{''B''}"]
          disconnect_removes_user_keeps_log
            [of "''Z''" "session w" "fst (on_disconnect ''Z'' (session w))"
                "snd (on_disconnect ''Z'' (session w))" "{''B''}"]
    unfolding w by (simp add: h ok n a z l inbox_def)
qed

subsection \<open>Runs of the server\<close>

lemma on_cursorMove_Inr:
  assumes "on_cursorMove k data s = Inr (s', out)"
  obtains "DAList.lookup (users s) k = None" and "s' = s" and "out = []"
  | u d where "DAList.lookup (users s) k = Some u" and "data = Some d"
      and "s' = s\<lparr>users := DAList.update k (u\<lparr>cursorX := cursor_x d, cursorY := cursor_y d\<rparr>) (users s)\<rparr>"
      and "out = [(BroadcastFrom k, CursorUpdate k (username u) (cursor_x d) (cursor_y d) (color u))]"
  using assms by (auto simp: on_cursorMove_def split: option.splits)

lemma on_undo_users: "users (fst (on_undo k s)) = users s"
  by (simp add: on_undo_def Let_def)

lemma handle_keys:
  assumes "handle k ev s = Inr (s', out)"
  shows "set (users_keys s') = live_after k ev (set (users_keys s))"
proof (cases ev)
  case Connection
  with assms have "s' = fst (on_connection k s)" by auto
  then show ?thesis
    using Connection by (simp add: users_keys_def on_connection_users keys_update)
next
  case (Draw data now)
  with assms show ?thesis by (auto elim!: on_draw_Inr simp: users_keys_def)
next
  case (Erase data now)
  with assms show ?thesis by (auto elim!: on_erase_Inr simp: users_keys_def)
next
  case (CursorMove data)
  with assms have "on_cursorMove k data s = Inr (s', out)" by simp
  then have "users_keys s' = users_keys s"
    by (elim on_cursorMove_Inr) (simp_all add: users_keys_def keys_update_present)
  with CursorMove show ?thesis by simp
next
  case Undo
  with assms have "s' = fst (on_undo k s)" by auto
  with Undo show ?thesis by (simp add: users_keys_def on_undo_users)
next
  case Redo
  with assms show ?thesis by (auto simp: on_redo_def)
next
  case ClearCanvas
  with assms show ?thesis by (auto simp: on_clearCanvas_def users_keys_def)
next
  case Disconnect
  with assms have "s' = s\<lparr>users := DAList.delete k (users s)\<rparr>"
    by (auto simp: on_disconnect_def Let_def)
  with Disconnect show ?thesis
    by (simp add: users_keys_def keys_delete)
qed

lemma world_step_keys:
  assumes "world_step w e = Some w'" and "set (users_keys (session w)) = live w"
  shows "set (users_keys (session w')) = live w'"
proof -
  from assms(1) obtain s' out where h: "handle (fst e) (snd e) (session w) = Inr (s', out)"
    and w': "w' = \<lparr>session = s', live = live_after (fst e) (snd e) (live w)\<rparr>"
    by (auto simp: world_step_def split: if_splits sum.splits)
  from handle_keys [OF h] assms(2) show ?thesis
    by (simp add: w')
qed

lemma run_world_keys:
  "run_world w evs = Some w' \<Longrightarrow> set (users_keys (session w)) = live w \<Longrightarrow>
   set (users_keys (session w')) = live w'"
proof (induction evs arbitrary: w)
  case Nil
  then show ?case by simp
next
  case (Cons e evs)
  from Cons.prems(1) obtain w1 where 1: "world_step w e = Some w1" and 2: "run_world w1 evs = Some w'"
    by (auto split: option.splits)
  show ?case
    by (rule Cons.IH [OF 2 world_step_keys [OF 1 Cons.prems(2)]])
qed

lemma initial_world_keys: "set (users_keys (session initial_world)) = live initial_world"
  by (simp add: initial_world_def initial_state_def users_keys_def DAList.empty.rep_eq)

lemma key_lookup:
  "k \<in> set (users_keys s) \<Longrightarrow> \<exists>u. DAList.lookup (users s) k = Some u"
  using lookup_None_key [of "users s" k] by (auto simp: users_keys_def)

text \<open>
  C9. In every state that a run of the server reaches from its start, the ids in the
  registry are exactly the sockets that are connected, the only ones whose handlers
  can fire. So for each of them the registry has a record, the draw handler never fails
  on reading \<open>color\<close> of a missing record, and with a payload it returns.
\<close>

theorem live_sockets_are_registered:
  assumes "run_world initial_world evs = Some w"
  shows "set (users_keys (session w)) = live w \<and>
     (\<forall>k \<in> live w.
        (\<exists>u. DAList.lookup (users (session w)) k = Some u) \<and>
        (\<forall>data now. on_draw k data now (session w) \<noteq> Inl (TypeError ''color'')) \<and>
        (\<forall>d now. \<exists>r. on_draw k (Some d) now (session w) = Inr r))"
proof -
  have keys: "set (users_keys (session w)) = live w"
    using run_world_keys [OF assms initial_world_keys] .
  have "(\<exists>u. DAList.lookup (users (session w)) k = Some u) \<and>
        (\<forall>data now. on_draw k data now (session w) \<noteq> Inl (TypeError ''color'')) \<and>
        (\<forall>d now. \<exists>r. on_draw k (Some d) now (session w) = Inr r)" if "k \<in> live w" for k
  proof -
    from that keys obtain u where u: "DAList.lookup (users (session w)) k = Some u"
      using key_lookup [of k "session w"] by auto
    then show ?thesis
      by (auto simp: on_draw_def Let_def split: option.splits)
  qed
  with keys show ?thesis
    by blast
qed

theorem live_sockets_are_registered_witness:
  "(case run_world initial_world
      [(''A'', Connection), (''B'', Connection),
       (''A'', CursorMove (Some \<lparr>cursor_x = JNum 5, cursor_y = JNum 7\<rparr>)),
       (''A'', Disconnect)] of
      None \<Rightarrow> False
    | Some w \<Rightarrow>
        live w = {''B''} \<and>
        users_keys (session w) = [''B''] \<and>
        on_draw ''B'' None 1000 (session w) = Inl (TypeError ''x1'') \<and>
        on_draw ''A'' None 1000 (session w) = Inl (TypeError ''color'') \<and>
        on_draw ''B''
          (Some \<lparr>data_x1 = JNum 1, data_y1 = JNum 2, data_x2 = JNum 3, data_y2 = JNum 4,
                 data_strokeWidth = JNum 5\<rparr>) 1000 (session w) =
          Inr (session w\<lparr>drawingHistory :=
                 [DrawCommand ''B'' ''#4ECDC4'' (JNum 1) (JNum 2) (JNum 3) (JNum 4) (JNum 5) 1000]\<rparr>,
               [(BroadcastFrom ''B'',
                 DrawMsg (DrawCommand ''B'' ''#4ECDC4'' (JNum 1) (JNum 2) (JNum 3) (JNum 4) (JNum 5)
                   1000))]))"
proof -
  obtain w where w: "run_world initial_world
      [(''A'', Connection), (''B'', Connection),
       (''A'', CursorMove (Some \<lparr>cursor_x = JNum 5, cursor_y = JNum 7\<rparr>)),
       (''A'', Disconnect)] = Some w"
    and l: "live w = {''B''}"
    and k: "users_keys (session w) = [''B'']"
    and b: "DAList.lookup (users (session w)) ''B'' =
        Some \<lparr>user_id = ''B'', color = ''#4ECDC4'', username = ''User2'',
              cursorX = JNum 0, cursorY = JNum 0\<rparr>"
    and a: "DAList.lookup (users (session w)) ''A'' = None"
    and h: "drawingHistory (session w) = []"
    by (auto simp: eval_defs)
  show ?thesis
    using live_sockets_are_registered [OF w]
    unfolding w by (simp add: l k a b h on_draw_def Let_def)
qed

subsection \<open>Further invariants of a run\<close>

lemma set_update_subset: "set (AList.update k v xs) \<subseteq> insert (k, v) (set xs)"
  by (induction xs) auto

lemma ids_ok_update:
  assumes "registry_ids_ok s" and "user_id u = k"
  shows "registry_ids_ok (s\<lparr>users := DAList.update k u (users s)\<rparr>)"
  using assms set_update_subset [of k u "DAList.impl_of (users s)"]
  by (auto simp: registry_ids_ok_def list_all_iff DAList.update.rep_eq)

lemma ids_ok_lookup:
  assumes "registry_ids_ok s" and "DAList.lookup (users s) k = Some u"
  shows "user_id u = k"
  using assms by (auto simp: registry_ids_ok_def list_all_iff DAList.lookup.rep_eq dest!: map_of_SomeD)

lemma handle_ids_ok:
  assumes "handle k ev s = Inr (s', out)" and "registry_ids_ok s"
  shows "registry_ids_ok s'"
proof (cases ev)
  case Connection
  with assms(1) have "s' = fst (on_connection k s)" by auto
  then show ?thesis
    using ids_ok_update [OF assms(2), of _ k] by (simp add: on_connection_def Let_def)
next
  case (Draw data now)
  with assms show ?thesis by (auto elim!: on_draw_Inr simp: registry_ids_ok_def)
next
  case (Erase data now)
  with assms show ?thesis by (auto elim!: on_erase_Inr simp: registry_ids_ok_def)
next
  case (CursorMove data)
  with assms(1) have "on_cursorMove k data s = Inr (s', out)" by simp
  then show ?thesis
  proof (cases rule: on_cursorMove_Inr)
    case 1
    with assms(2) show ?thesis by simp
  next
    case (2 u d)
    from ids_ok_lookup [OF assms(2) 2(1)] have "user_id (u\<lparr>cursorX := cursor_x d, cursorY := cursor_y d\<rparr>) = k"
      by simp
    from ids_ok_update [OF assms(2) this] 2(3) show ?thesis by simp
  qed
next
  case Undo
  with assms(1) have "s' = fst (on_undo k s)" by auto
  then have "users s' = users s" by (simp add: on_undo_users)
  with assms(2) show ?thesis by (simp add: registry_ids_ok_def)
next
  case Redo
  with assms show ?thesis by (auto simp: on_redo_def)
next
  case ClearCanvas
  with assms show ?thesis by (auto simp: on_clearCanvas_def registry_ids_ok_def)
next
  case Disconnect
  with assms(1) have "s' = s\<lparr>users := DAList.delete k (users s)\<rparr>"
    by (auto simp: on_disconnect_def Let_def)
  with assms(2) show ?thesis
    by (auto simp: registry_ids_ok_def list_all_iff DAList.delete.rep_eq delete_as_filter)
qed

lemma run_world_ids_ok:
  "run_world w evs = Some w' \<Longrightarrow> registry_ids_ok (session w) \<Longrightarrow> registry_ids_ok (session w')"
proof (induction evs arbitrary: w)
  case Nil
  then show ?case by simp
next
  case (Cons e evs)
  from Cons.prems(1) obtain w1 where 1: "world_step w e = Some w1" and 2: "run_world w1 evs = Some w'"
    by (auto split: option.splits)
  from 1 obtain out where "handle (fst e) (snd e) (session w) = Inr (session w1, out)"
    by (auto simp: world_step_def split: if_splits sum.splits)
  from handle_ids_ok [OF this Cons.prems(2)] show ?case
    by (rule Cons.IH [OF 2])
qed

lemma reachable_ids_ok:
  "run_world initial_world evs = Some w \<Longrightarrow> registry_ids_ok (session w)"
  by (erule run_world_ids_ok)
    (simp add: initial_world_def initial_state_def registry_ids_ok_def DAList.empty.rep_eq)

lemma connection_id_is_fresh:
  assumes "run_world initial_world evs = Some w" and "deliverable w k Connection"
  shows "DAList.lookup (users (session w)) k = None"
proof -
  have "set (users_keys (session w)) = live w"
    using run_world_keys [OF assms(1) initial_world_keys] .
  with assms(2) have "k \<notin> fst ` set (DAList.impl_of (users (session w)))"
    by (simp add: users_keys_def)
  then show ?thesis
    by (simp add: lookup_None_key)
qed

lemma draw_erase_step:
  assumes "world_step w e = Some w1" and "draw_or_erase (snd e)"
  shows "users (session w1) = users (session w) \<and>
         drawingHistory (session w1) =
           drawingHistory (session w) @ command_of_event (users (session w)) e \<and>
         length (command_of_event (users (session w)) e) = 1"
proof -
  obtain k ev where e: "e = (k, ev)"
    by (cases e)
  from assms(1) obtain s' out where h: "handle k ev (session w) = Inr (s', out)"
    and w1: "session w1 = s'"
    by (auto simp: world_step_def e split: if_splits sum.splits)
  from assms(2) e consider data now where "ev = Draw data now" | data now where "ev = Erase data now"
    by (cases ev) simp_all
  then show ?thesis
  proof cases
    case 1
    with h have "on_draw k data now (session w) = Inr (s', out)" by simp
    then show ?thesis
      by (elim on_draw_Inr) (simp add: e 1 w1)
  next
    case 2
    with h have "on_erase k data now (session w) = Inr (s', out)" by simp
    then show ?thesis
      by (elim on_erase_Inr) (simp add: e 2 w1)
  qed
qed

lemma draw_erase_run_log:
  "run_world w evs = Some w' \<Longrightarrow> list_all (\<lambda>e. draw_or_erase (snd e)) evs \<Longrightarrow>
   users (session w') = users (session w) \<and>
   drawingHistory (session w') =
     drawingHistory (session w) @ concat (map (command_of_event (users (session w))) evs)"
proof (induction evs arbitrary: w)
  case Nil
  then show ?case by simp
next
  case (Cons e evs)
  from Cons.prems(1) obtain w1 where 1: "world_step w e = Some w1" and 2: "run_world w1 evs = Some w'"
    by (auto split: option.splits)
  from Cons.prems(2) have 3: "draw_or_erase (snd e)" and 4: "list_all (\<lambda>e. draw_or_erase (snd e)) evs"
    by simp_all
  from draw_erase_step [OF 1 3] Cons.IH [OF 2 4] show ?case
    by simp
qed

lemma draw_erase_run_length:
  "run_world w evs = Some w' \<Longrightarrow> list_all (\<lambda>e. draw_or_erase (snd e)) evs \<Longrightarrow>
   length (drawingHistory (session w')) = length (drawingHistory (session w)) + length evs"
proof (induction evs arbitrary: w)
  case Nil
  then show ?case by simp
next
  case (Cons e evs)
  from Cons.prems(1) obtain w1 where 1: "world_step w e = Some w1" and 2: "run_world w1 evs = Some w'"
    by (auto split: option.splits)
  from Cons.prems(2) have 3: "draw_or_erase (snd e)" and 4: "list_all (\<lambda>e. draw_or_erase (snd e)) evs"
    by simp_all
  have "length (drawingHistory (session w1)) = length (drawingHistory (session w)) + 1"
    using draw_erase_step [OF 1 3] by simp
  with Cons.IH [OF 2 4] show ?case
    by simp
qed

subsection \<open>What the joiner receives\<close>

text \<open>
  C3. The connection handler first inserts the joiner into the registry, then sends
  loadDrawingHistory to the joiner's socket only, with exactly the history log of that
  moment (the handler does not change the log), then broadcasts the user list of the
  registry after the insertion, which contains the joiner, to all connections. So the
  joiner, once connected, receives the history and then the user list, and every other
  connection receives the user list only. In particular, when the state was reached
  by a run of draw and erase events, the payload is the log from before the run
  followed by the commands of these events, one for each, in the order of the events.
\<close>

theorem connection_sends_history_to_joiner_then_user_list:
  assumes "on_connection k s = (s', out)"
  shows "drawingHistory s' = drawingHistory s \<and>
     out = [(ToSocket k, LoadDrawingHistory (drawingHistory s)),
            (ToAll, UserListUpdate (userList s'))] \<and>
     k \<in> set (users_keys s') \<and>
     k \<in> entry_id ` set (userList s') \<and>
     (\<forall>c. receives conns (ToSocket k) c = (c = k)) \<and>
     (k \<in> conns \<longrightarrow>
        inbox conns out k = [LoadDrawingHistory (drawingHistory s), UserListUpdate (userList s')]) \<and>
     (\<forall>c \<in> conns. c \<noteq> k \<longrightarrow> inbox conns out c = [UserListUpdate (userList s')]) \<and>
     (\<forall>w0 evs w.
        run_world w0 evs = Some w \<and> list_all (\<lambda>e. draw_or_erase (snd e)) evs \<and> session w = s \<longrightarrow>
        drawingHistory s =
          drawingHistory (session w0) @ concat (map (command_of_event (users (session w0))) evs) \<and>
        length (drawingHistory s) = length (drawingHistory (session w0)) + length evs)"
proof -
  have s': "s' = fst (on_connection k s)" and out: "out = snd (on_connection k s)"
    using assms by simp_all
  have 1: "drawingHistory s' = drawingHistory s"
    by (simp add: s' on_connection_history)
  have 2: "out = [(ToSocket k, LoadDrawingHistory (drawingHistory s)),
            (ToAll, UserListUpdate (userList s'))]"
    by (simp add: s' out on_connection_out)
  have 3: "k \<in> set (users_keys s')"
    by (simp add: s' users_keys_def on_connection_users keys_update)
  let ?u = "\<lparr>user_id = k, color = generateColor s, username = ''User'' @ decimal (users_size s + 1),
        cursorX = JNum 0, cursorY = JNum 0\<rparr>"
  have "DAList.lookup (users s') k = Some ?u"
    by (simp add: s' on_connection_users)
  then have "?u \<in> set (users_values s')"
    unfolding users_values_def by (rule lookup_Some_in_values)
  then have "entry_id \<lparr>entry_id = user_id ?u, entry_username = username ?u, entry_color = color ?u\<rparr>
      \<in> entry_id ` set (userList s')"
    unfolding userList_def by (intro imageI) (simp only: set_map, rule imageI)
  then have 4: "k \<in> entry_id ` set (userList s')"
    by simp
  have 5: "\<forall>c. receives conns (ToSocket k) c = (c = k)"
    by simp
  have 6: "inbox conns out k = [LoadDrawingHistory (drawingHistory s), UserListUpdate (userList s')]"
    if "k \<in> conns"
    using that by (simp add: 2 inbox_Cons inbox_Nil)
  have 7: "\<forall>c \<in> conns. c \<noteq> k \<longrightarrow> inbox conns out c = [UserListUpdate (userList s')]"
    by (simp add: 2 inbox_Cons inbox_Nil)
  have 8: "\<forall>w0 evs w.
        run_world w0 evs = Some w \<and> list_all (\<lambda>e. draw_or_erase (snd e)) evs \<and> session w = s \<longrightarrow>
        drawingHistory s =
          drawingHistory (session w0) @ concat (map (command_of_event (users (session w0))) evs) \<and>
        length (drawingHistory s) = length (drawingHistory (session w0)) + length evs"
    using draw_erase_run_log draw_erase_run_length by blast
  from 1 2 3 4 5 6 7 8 show ?thesis by blast
qed

theorem connection_sends_history_to_joiner_then_user_list_witness:
  "(case run_world
      \<lparr>session = (fst (on_connection ''B'' (fst (on_connection ''A'' initial_state)))),
        live = {''A'', ''B''}\<rparr>
      [(''A'', Draw (Some \<lparr>data_x1 = JNum 1, data_y1 = JNum 2, data_x2 = JNum 3, data_y2 = JNum 4,
                           data_strokeWidth = JNum 5\<rparr>) 1000),
       (''B'', Erase (Some \<lparr>erase_x = JNum 6, erase_y = JNum 7, erase_radius = JNum 8\<rparr>) 1001)] of
      None \<Rightarrow> False
    | Some w \<Rightarrow>
        drawingHistory (session w) =
          [DrawCommand ''A'' ''#FF6B6B'' (JNum 1) (JNum 2) (JNum 3) (JNum 4) (JNum 5) 1000,
           EraseCommand ''B'' (JNum 6) (JNum 7) (JNum 8) 1001] \<and>
        length (drawingHistory (session w)) = 2 \<and>
        inbox {''A'', ''B'', ''C''} (snd (on_connection ''C'' (session w))) ''C'' =
          [LoadDrawingHistory
             [DrawCommand ''A'' ''#FF6B6B'' (JNum 1) (JNum 2) (JNum 3) (JNum 4) (JNum 5) 1000,
              EraseCommand ''B'' (JNum 6) (JNum 7) (JNum 8) 1001],
           UserListUpdate
             [\<lparr>entry_id = ''A'', entry_username = ''User1'', entry_color = ''#FF6B6B''\<rparr>,
              \<lparr>entry_id = ''B'', entry_username = ''User2'', entry_color = ''#4ECDC4''\<rparr>,
              \<lparr>entry_id = ''C'', entry_username = ''User3'', entry_color = ''#45B7D1''\<rparr>]] \<and>
        inbox {''A'', ''B'', ''C''} (snd (on_connection ''C'' (session w))) ''A'' =
          [UserListUpdate
             [\<lparr>entry_id = ''A'', entry_username = ''User1'', entry_color = ''#FF6B6B''\<rparr>,
              \<lparr>entry_id = ''B'', entry_username = ''User2'', entry_color = ''#4ECDC4''\<rparr>,
              \<lparr>entry_id = ''C'', entry_username = ''User3'', entry_color = ''#45B7D1''\<rparr>]])"
proof -
  let ?w0 = "\<lparr>session = (fst (on_connection ''B'' (fst (on_connection ''A'' initial_state)))),
        live = {''A'', ''B''}\<rparr>"
  let ?evs = "[(''A'', Draw (Some \<lparr>data_x1 = JNum 1, data_y1 = JNum 2, data_x2 = JNum 3, data_y2 = JNum 4,
                           data_strokeWidth = JNum 5\<rparr>) 1000),
       (''B'', Erase (Some \<lparr>erase_x = JNum 6, erase_y = JNum 7, erase_radius = JNum 8\<rparr>) 1001)]"
  obtain w where w: "run_world ?w0 ?evs = Some w"
    and u: "userList (fst (on_connection ''C'' (session w))) =
             [\<lparr>entry_id = ''A'', entry_username = ''User1'', entry_color = ''#FF6B6B''\<rparr>,
              \<lparr>entry_id = ''B'', entry_username = ''User2'', entry_color = ''#4ECDC4''\<rparr>,
              \<lparr>entry_id = ''C'', entry_username = ''User3'', entry_color = ''#45B7D1''\<rparr>]"
    by (simp add: eval_defs)
  have c: "concat (map (command_of_event (users (session ?w0))) ?evs) =
      [DrawCommand ''A'' ''#FF6B6B'' (JNum 1) (JNum 2) (JNum 3) (JNum 4) (JNum 5) 1000,
       EraseCommand ''B'' (JNum 6) (JNum 7) (JNum 8) 1001]"
    and h0: "drawingHistory (session ?w0) = []"
    by (simp_all add: eval_defs)
  note t = connection_sends_history_to_joiner_then_user_list
      [of "''C''" "session w" "fst (on_connection ''C'' (session w))"
          "snd (on_connection ''C'' (session w))" "{''A'', ''B'', ''C''}",
       OF prod.collapse [symmetric]]
  have la: "list_all (\<lambda>e. draw_or_erase (snd e)) ?evs"
    by simp
  from t have "\<forall>w0 evs wa.
        run_world w0 evs = Some wa \<and> list_all (\<lambda>e. draw_or_erase (snd e)) evs \<and>
        session wa = session w \<longrightarrow>
        drawingHistory (session w) =
          drawingHistory (session w0) @ concat (map (command_of_event (users (session w0))) evs) \<and>
        length (drawingHistory (session w)) = length (drawingHistory (session w0)) + length evs"
    by (elim conjE)
  note q = this [rule_format, of ?w0 ?evs w, OF conjI [OF w conjI [OF la refl]]]
  from q have h: "drawingHistory (session w) =
      [DrawCommand ''A'' ''#FF6B6B'' (JNum 1) (JNum 2) (JNum 3) (JNum 4) (JNum 5) 1000,
       EraseCommand ''B'' (JNum 6) (JNum 7) (JNum 8) 1001]"
    unfolding c h0 by simp
  show ?thesis
    using t unfolding w by (simp add: h u inbox_def)
qed

subsection \<open>Usernames\<close>

text \<open>
  C8. There is a sequence of connection and disconnect events after which two different
  sockets are registered at the same time with the same username. A and B connect, A
  disconnects, C connects: the registry then holds B and C, and both are "User2",
  since the registry had one entry when C joined. No id connects twice in this
  sequence, so the collision comes from the registry shrinking on the disconnect.
\<close>

theorem usernames_can_collide:
  "(case run_world initial_world
      [(''A'', Connection), (''B'', Connection), (''A'', Disconnect), (''C'', Connection)] of
      None \<Rightarrow> False
    | Some w \<Rightarrow>
        users_keys (session w) = [''B'', ''C''] \<and>
        live w = {''B'', ''C''} \<and>
        map_option username (DAList.lookup (users (session w)) ''B'') = Some ''User2'' \<and>
        map_option username (DAList.lookup (users (session w)) ''C'') = Some ''User2'') \<and>
   (\<exists>evs w a b ua ub.
     list_all (\<lambda>e. membership_event (snd e)) evs \<and>
     no_id_reuse evs \<and>
     run_world initial_world evs = Some w \<and>
     a \<noteq> b \<and>
     DAList.lookup (users (session w)) a = Some ua \<and>
     DAList.lookup (users (session w)) b = Some ub \<and>
     username ua = username ub)"
proof -
  let ?evs = "[(''A'', Connection), (''B'', Connection), (''A'', Disconnect), (''C'', Connection)]"
  obtain w where w: "run_world initial_world ?evs = Some w"
    and k: "users_keys (session w) = [''B'', ''C'']"
    and l: "live w = {''B'', ''C''}"
    and b: "DAList.lookup (users (session w)) ''B'' =
        Some \<lparr>user_id = ''B'', color = ''#4ECDC4'', username = ''User2'',
              cursorX = JNum 0, cursorY = JNum 0\<rparr>"
    and c: "DAList.lookup (users (session w)) ''C'' =
        Some \<lparr>user_id = ''C'', color = ''#4ECDC4'', username = ''User2'',
              cursorX = JNum 0, cursorY = JNum 0\<rparr>"
    by (auto simp: eval_defs)
  have run: "(case run_world initial_world ?evs of
      None \<Rightarrow> False
    | Some w \<Rightarrow>
        users_keys (session w) = [''B'', ''C''] \<and>
        live w = {''B'', ''C''} \<and>
        map_option username (DAList.lookup (users (session w)) ''B'') = Some ''User2'' \<and>
        map_option username (DAList.lookup (users (session w)) ''C'') = Some ''User2'')"
    unfolding w by (simp add: k l b c)
  have "list_all (\<lambda>e. membership_event (snd e)) ?evs"
    by simp
  moreover have "no_id_reuse ?evs"
    by (simp add: no_id_reuse_def)
  moreover have "''B'' \<noteq> ''C''"
    by simp
  moreover have "username \<lparr>user_id = ''B'', color = ''#4ECDC4'', username = ''User2'',
              cursorX = JNum 0, cursorY = JNum 0\<rparr> =
      username \<lparr>user_id = ''C'', color = ''#4ECDC4'', username = ''User2'',
              cursorX = JNum 0, cursorY = JNum 0\<rparr>"
    by simp
  ultimately have "\<exists>evs w a b ua ub.
     list_all (\<lambda>e. membership_event (snd e)) evs \<and>
     no_id_reuse evs \<and>
     run_world initial_world evs = Some w \<and>
     a \<noteq> b \<and>
     DAList.lookup (users (session w)) a = Some ua \<and>
     DAList.lookup (users (session w)) b = Some ub \<and>
     username ua = username ub"
    using w b c by blast
  with run show ?thesis
    by (rule conjI)
qed

subsection \<open>What each handler leaves alone\<close>

lemma handle_frame_users:
  assumes "handle k ev s = Inr (s', out)" and "log_event ev"
  shows "users s' = users s"
proof (cases ev)
  case (Draw data now)
  with assms show ?thesis by (auto elim!: on_draw_Inr)
next
  case (Erase data now)
  with assms show ?thesis by (auto elim!: on_erase_Inr)
next
  case Undo
  with assms(1) have "s' = fst (on_undo k s)" by auto
  then show ?thesis by (simp add: on_undo_users)
next
  case ClearCanvas
  with assms show ?thesis by (auto simp: on_clearCanvas_def)
qed (use assms in simp_all)

lemma handle_frame_log:
  assumes "handle k ev s = Inr (s', out)" and "\<not> log_event ev"
  shows "drawingHistory s' = drawingHistory s"
proof (cases ev)
  case Connection
  with assms(1) have "s' = fst (on_connection k s)" by auto
  then show ?thesis by (simp add: on_connection_history)
next
  case (CursorMove data)
  with assms show ?thesis by (auto elim!: on_cursorMove_Inr)
next
  case Redo
  with assms show ?thesis by (auto simp: on_redo_def)
next
  case Disconnect
  with assms show ?thesis by (auto simp: on_disconnect_def Let_def)
qed (use assms in simp_all)

lemma handle_frame_registry:
  assumes "handle k ev s = Inr (s', out)" and "\<not> membership_event ev"
  shows "users_keys s' = users_keys s"
    and "k' \<noteq> k \<Longrightarrow> DAList.lookup (users s') k' = DAList.lookup (users s) k'"
    and "DAList.lookup (users s') k = Some u' \<Longrightarrow>
         \<exists>u. DAList.lookup (users s) k = Some u \<and>
             u' = u\<lparr>cursorX := cursorX u', cursorY := cursorY u'\<rparr>"
proof -
  have "users s' = users s \<or>
        (\<exists>u (d :: cursor_data). DAList.lookup (users s) k = Some u \<and>
           users s' = DAList.update k (u\<lparr>cursorX := cursor_x d, cursorY := cursor_y d\<rparr>) (users s))"
  proof (cases "log_event ev")
    case True
    from handle_frame_users [OF assms(1) this] show ?thesis by simp
  next
    case False
    with assms(2) consider data where "ev = CursorMove data" | "ev = Redo"
      by (cases ev) simp_all
    then show ?thesis
    proof cases
      case 1
      with assms(1) have "on_cursorMove k data s = Inr (s', out)" by simp
      then show ?thesis
      proof (cases rule: on_cursorMove_Inr)
        case 1
        then show ?thesis by simp
      next
        case (2 u d)
        then have "DAList.lookup (users s) k = Some u \<and>
           users s' = DAList.update k (u\<lparr>cursorX := cursor_x d, cursorY := cursor_y d\<rparr>) (users s)"
          by simp
        then have "\<exists>u (d :: cursor_data). DAList.lookup (users s) k = Some u \<and>
           users s' = DAList.update k (u\<lparr>cursorX := cursor_x d, cursorY := cursor_y d\<rparr>) (users s)"
          by blast
        then show ?thesis
          by (rule disjI2)
      qed
    next
      case 2
      with assms(1) show ?thesis by (auto simp: on_redo_def)
    qed
  qed
  then consider "users s' = users s"
    | u and d :: cursor_data where "DAList.lookup (users s) k = Some u"
        "users s' = DAList.update k (u\<lparr>cursorX := cursor_x d, cursorY := cursor_y d\<rparr>) (users s)"
    by blast
  note c = this
  from c show "users_keys s' = users_keys s"
    by cases (simp_all add: users_keys_def keys_update_present)
  from c show "DAList.lookup (users s') k' = DAList.lookup (users s) k'" if "k' \<noteq> k"
    using that by cases simp_all
  from c show "\<exists>u. DAList.lookup (users s) k = Some u \<and>
             u' = u\<lparr>cursorX := cursorX u', cursorY := cursorY u'\<rparr>"
    if "DAList.lookup (users s') k = Some u'"
    using that by cases auto
qed

text \<open>
  C10 as amended. Handling draw, erase, undo or clearCanvas leaves the registry as it
  is. Handling any other event (connection, cursorMove, redo, disconnect) leaves the
  history log as it is. Only connection and disconnect change which ids the registry
  holds: every other event keeps the ids and their order, keeps the record of every
  other socket, and changes at most the cursor position in the sender's record.
\<close>

theorem handlers_frame:
  assumes "handle k ev s = Inr (s', out)"
  shows "(log_event ev \<longrightarrow> users s' = users s) \<and>
     (\<not> log_event ev \<longrightarrow> drawingHistory s' = drawingHistory s) \<and>
     (\<not> membership_event ev \<longrightarrow>
        users_keys s' = users_keys s \<and>
        (\<forall>k'. k' \<noteq> k \<longrightarrow> DAList.lookup (users s') k' = DAList.lookup (users s) k') \<and>
        (\<forall>u'. DAList.lookup (users s') k = Some u' \<longrightarrow>
           (\<exists>u. DAList.lookup (users s) k = Some u \<and>
                u' = u\<lparr>cursorX := cursorX u', cursorY := cursorY u'\<rparr>)))"
  using handle_frame_users [OF assms] handle_frame_log [OF assms] handle_frame_registry [OF assms]
  by blast

theorem handlers_frame_witness:
  "(case handle ''A'' (CursorMove (Some \<lparr>cursor_x = JNum 5, cursor_y = JNum 7\<rparr>))
      (fst (on_connection ''A'' initial_state)) of
      Inl e \<Rightarrow> False
    | Inr r \<Rightarrow>
        drawingHistory (fst r) = [] \<and> users_keys (fst r) = [''A'']) \<and>
   (case handle ''A'' (Draw (Some \<lparr>data_x1 = JNum 1, data_y1 = JNum 2, data_x2 = JNum 3, data_y2 = JNum 4,
           data_strokeWidth = JNum 5\<rparr>) 1000)
      (fst (on_connection ''A'' initial_state)) of
      Inl e \<Rightarrow> False
    | Inr r \<Rightarrow>
        users (fst r) = users (fst (on_connection ''A'' initial_state)) \<and>
        drawingHistory (fst r) = [DrawCommand ''A'' ''#FF6B6B'' (JNum 1) (JNum 2) (JNum 3) (JNum 4) (JNum 5) 1000])"
proof -
  let ?s = "(fst (on_connection ''A'' initial_state))"
  have s: "drawingHistory ?s = []" "users_keys ?s = [''A'']"
    by (simp_all add: eval_defs)
  obtain s1 o1 where c: "handle ''A'' (CursorMove (Some \<lparr>cursor_x = JNum 5, cursor_y = JNum 7\<rparr>)) ?s = Inr (s1, o1)"
    by (simp add: eval_defs)
  obtain s2 o2 where d: "handle ''A'' (Draw (Some \<lparr>data_x1 = JNum 1, data_y1 = JNum 2, data_x2 = JNum 3, data_y2 = JNum 4,
           data_strokeWidth = JNum 5\<rparr>) 1000) ?s = Inr (s2, o2)"
    and h: "drawingHistory s2 = [DrawCommand ''A'' ''#FF6B6B'' (JNum 1) (JNum 2) (JNum 3) (JNum 4) (JNum 5) 1000]"
    by (simp add: eval_defs)
  show ?thesis
    using handlers_frame [OF c] handlers_frame [OF d]
    unfolding c d by (simp add: s h)
qed

text \<open>
  C10 as stated fails: cursorMove is neither connection nor disconnect, and it changes
  the registry, since the handler assigns to the \<open>cursorX\<close> and \<open>cursorY\<close> of the
  record that the map holds.
\<close>

theorem cursorMove_mutates_registry:
  "\<not> membership_event (CursorMove (Some \<lparr>cursor_x = JNum 5, cursor_y = JNum 7\<rparr>)) \<and>
   handle ''A'' (CursorMove (Some \<lparr>cursor_x = JNum 5, cursor_y = JNum 7\<rparr>))
     (fst (on_connection ''A'' initial_state)) =
     Inr ((fst (on_connection ''A'' initial_state))
            \<lparr>users := DAList.update ''A''
               \<lparr>user_id = ''A'', color = ''#FF6B6B'', username = ''User1'',
                cursorX = JNum 5, cursorY = JNum 7\<rparr>
               (users (fst (on_connection ''A'' initial_state)))\<rparr>,
          [(BroadcastFrom ''A'', CursorUpdate ''A'' ''User1'' (JNum 5) (JNum 7) ''#FF6B6B'')]) \<and>
   users ((fst (on_connection ''A'' initial_state))
            \<lparr>users := DAList.update ''A''
               \<lparr>user_id = ''A'', color = ''#FF6B6B'', username = ''User1'',
                cursorX = JNum 5, cursorY = JNum 7\<rparr>
               (users (fst (on_connection ''A'' initial_state)))\<rparr>) \<noteq>
   users (fst (on_connection ''A'' initial_state))"
proof -
  let ?s = "(fst (on_connection ''A'' initial_state))"
  let ?u = "\<lparr>user_id = ''A'', color = ''#FF6B6B'', username = ''User1'',
                cursorX = JNum 5, cursorY = JNum 7\<rparr>"
  have a: "DAList.lookup (users ?s) ''A'' =
      Some \<lparr>user_id = ''A'', color = ''#FF6B6B'', username = ''User1'',
            cursorX = JNum 0, cursorY = JNum 0\<rparr>"
    by (simp add: eval_defs)
  have h: "handle ''A'' (CursorMove (Some \<lparr>cursor_x = JNum 5, cursor_y = JNum 7\<rparr>)) ?s =
     Inr (?s\<lparr>users := DAList.update ''A'' ?u (users ?s)\<rparr>,
          [(BroadcastFrom ''A'', CursorUpdate ''A'' ''User1'' (JNum 5) (JNum 7) ''#FF6B6B'')])"
    by (simp add: on_cursorMove_def a)
  have "DAList.update ''A'' ?u (users ?s) \<noteq> users ?s"
  proof
    assume "DAList.update ''A'' ?u (users ?s) = users ?s"
    then have "DAList.lookup (DAList.update ''A'' ?u (users ?s)) ''A'' = DAList.lookup (users ?s) ''A''"
      by (rule arg_cong)
    then have "Some ?u = DAList.lookup (users ?s) ''A''"
      by (simp only: DAList.lookup_update_eq)
    then show False
      by (simp add: a)
  qed
  with h show ?thesis
    by simp
qed

end
